theory Spec2Isabelle
  imports Main "HOL-Library.AList" "HOL-Library.Word"
begin

section \<open>Python values\<close>

text \<open>
  The handlers of \<open>routes.py\<close> receive whatever \<open>request.get_json(force=True)\<close> parsed:
  \<open>None\<close>, a bool, an int, a float, a string, a list or a dict with string keys. The same
  type carries the values the services hand back (\<open>query_node\<close> returns a dict whose
  \<open>edges\<close> entry is a list of tuples). A float is its IEEE-754 binary64 bit pattern; a dict
  is an association list in insertion order.
\<close>

datatype pyval =
    PNone
  | PBool bool
  | PInt int
  | PFloat "64 word"
  | PStr string
  | PList "pyval list"
  | PTuple "pyval list"
  | PDict "(string \<times> pyval) list"

datatype error = AttributeError | TypeError | KeyError

type_synonym attrs = "(string \<times> pyval) list"

text \<open>Python's truth value testing, as \<open>if not node_id\<close> applies it.\<close>

fun truthy :: "pyval \<Rightarrow> bool" where
  "truthy PNone = False"
| "truthy (PBool b) = b"
| "truthy (PInt i) = (i \<noteq> 0)"
| "truthy (PFloat w) = (w \<noteq> 0 \<and> w \<noteq> 0x8000000000000000)"
| "truthy (PStr s) = (s \<noteq> [])"
| "truthy (PList xs) = (xs \<noteq> [])"
| "truthy (PTuple xs) = (xs \<noteq> [])"
| "truthy (PDict d) = (d \<noteq> [])"

text \<open>
  \<open>payload.get(key, default)\<close>: only a dict has the method; on any other value the
  attribute lookup raises AttributeError.
\<close>

fun py_get :: "pyval \<Rightarrow> string \<Rightarrow> pyval \<Rightarrow> error + pyval" where
  "py_get (PDict d) key dflt = Inr (case map_of d key of None \<Rightarrow> dflt | Some v \<Rightarrow> v)"
| "py_get _ key dflt = Inl AttributeError"

text \<open>
  \<open>content[:n]\<close>: strings, lists and tuples are sliced; every other value raises (a dict
  raises TypeError for the unhashable slice, KeyError from Python 3.12 on; the model
  says TypeError).
\<close>

fun py_slice_to :: "pyval \<Rightarrow> nat \<Rightarrow> error + pyval" where
  "py_slice_to (PStr s) n = Inr (PStr (take n s))"
| "py_slice_to (PList xs) n = Inr (PList (take n xs))"
| "py_slice_to (PTuple xs) n = Inr (PTuple (take n xs))"
| "py_slice_to _ n = Inl TypeError"

fun py_len :: "pyval \<Rightarrow> error + int" where
  "py_len (PStr s) = Inr (int (length s))"
| "py_len (PList xs) = Inr (int (length xs))"
| "py_len (PTuple xs) = Inr (int (length xs))"
| "py_len (PDict d) = Inr (int (length d))"
| "py_len _ = Inl TypeError"

text \<open>\<open>d.update(attr)\<close>: each pair of \<open>attr\<close> is stored in turn, a later one winning.\<close>

definition dict_update :: "('k \<times> 'v) list \<Rightarrow> ('k \<times> 'v) list \<Rightarrow> ('k \<times> 'v) list" where
  "dict_update d attr = fold (\<lambda>(k, v). AList.update k v) attr d"

text \<open>
  A call \<open>f(x, **kwargs)\<close> binds the keywords to the parameters of \<open>f\<close> by name. A
  keyword that names a parameter already bound (\<open>self\<close>, or one given by position)
  makes the call raise TypeError before the body of \<open>f\<close> runs; every other keyword goes
  to the \<open>**\<close> parameter of \<open>f\<close>. \<open>kwargs_clash params kwargs\<close> says that some keyword
  names one of the bound parameters \<open>params\<close>.
\<close>

definition kwargs_clash :: "string list \<Rightarrow> attrs \<Rightarrow> bool" where
  "kwargs_clash params kwargs \<longleftrightarrow> (\<exists>k \<in> set params. k \<in> fst ` set kwargs)"

section \<open>The graph library\<close>

text \<open>
  Modelled from the spec: the graph class \<open>networkx.Graph\<close> that \<open>graph.py\<close> wraps is a
  third-party library and not part of the sources. The spec gives its behaviour: a graph
  is a mapping from node identifier to attribute mapping together with undirected edges
  that carry attribute mappings; adding a node inserts it or updates its attributes;
  adding an edge creates either endpoint as a bare node if absent and, between a pair
  that has an edge, updates that edge's attributes. The representation is the library's
  own pair of dictionaries: \<open>node\<close> maps a node to its attributes, \<open>adj\<close> maps a node to
  the dictionary of its neighbours, each with the attributes of the connecting edge.
  An undirected edge between \<open>u\<close> and \<open>v\<close> is stored twice, under \<open>adj[u][v]\<close> and
  \<open>adj[v][u]\<close>.
\<close>

record graph =
  node :: "(string \<times> attrs) list"
  adj :: "(string \<times> (string \<times> attrs) list) list"

text \<open>Modelled from the spec: \<open>nx.Graph()\<close>, the graph without nodes and edges.\<close>

definition nx_Graph :: graph where
  "nx_Graph = \<lparr> node = [], adj = [] \<rparr>"

text \<open>
  Modelled from the spec: the body of \<open>Graph.add_node(self, node_for_adding, **attr)\<close>,
  entered once the arguments are bound (the binding is part of the call, in \<open>add_node\<close>
  below). A new node gets an empty neighbour dictionary and the given attributes; an
  existing node has its attribute dictionary updated.
\<close>

definition nx_add_node :: "graph \<Rightarrow> string \<Rightarrow> attrs \<Rightarrow> graph" where
  "nx_add_node g n attr =
     (case map_of (node g) n of
        None \<Rightarrow> g\<lparr> adj := AList.update n [] (adj g),
                   node := AList.update n (dict_update [] attr) (node g) \<rparr>
      | Some d \<Rightarrow> g\<lparr> node := AList.update n (dict_update d attr) (node g) \<rparr>)"

text \<open>
  Modelled from the spec: the implicit creation of an endpoint inside
  \<open>Graph.add_edge\<close>: a node not yet present is entered bare, with no attributes and no
  neighbours.
\<close>

definition nx_ensure_node :: "graph \<Rightarrow> string \<Rightarrow> graph" where
  "nx_ensure_node g u =
     (case map_of (node g) u of
        None \<Rightarrow> g\<lparr> adj := AList.update u [] (adj g), node := AList.update u [] (node g) \<rparr>
      | Some d \<Rightarrow> g)"

text \<open>
  Modelled from the spec: the body of \<open>Graph.add_edge(self, u_of_edge, v_of_edge, **attr)\<close>,
  entered once the arguments are bound (the binding is part of the call, in \<open>add_edge\<close>
  below). Both endpoints are created if absent; the attribute dictionary of the edge
  (empty when the pair has no edge yet) is updated with \<open>attr\<close> and stored under
  \<open>adj[u][v]\<close> and \<open>adj[v][u]\<close>. The subscripts
  \<open>adj[u]\<close> and \<open>adj[v]\<close> raise KeyError when \<open>adj\<close> lacks the key; the graph returned
  with the error is the one reached when it is raised.
\<close>

definition nx_add_edge :: "graph \<Rightarrow> string \<Rightarrow> string \<Rightarrow> attrs \<Rightarrow> (error + unit) \<times> graph" where
  "nx_add_edge g u v attr =
     (let g1 = nx_ensure_node (nx_ensure_node g u) v in
      (case map_of (adj g1) u of
         None \<Rightarrow> (Inl KeyError, g1)
       | Some adj_u \<Rightarrow>
           (let datadict = dict_update (case map_of adj_u v of None \<Rightarrow> [] | Some d \<Rightarrow> d) attr;
                g2 = g1\<lparr> adj := AList.update u (AList.update v datadict adj_u) (adj g1) \<rparr>
            in (case map_of (adj g2) v of
                  None \<Rightarrow> (Inl KeyError, g2)
                | Some adj_v \<Rightarrow>
                    (Inr (), g2\<lparr> adj := AList.update v (AList.update u datadict adj_v) (adj g2) \<rparr>)))))"

section \<open>GraphService (graph.py)\<close>

text \<open>
  The service holds one graph and a lock. Every method runs its body inside
  \<open>with self._lock\<close>; in the sequential reading given here the lock is free at every call
  and released at every return, so a method is its body: a function from the graph before
  the call to the outcome and the graph after it.
\<close>

definition GraphService :: graph where
  "GraphService = nx_Graph"

text \<open>
  \<open>add_node(self, node_id, **attrs)\<close> takes the attributes as keywords. An attribute
  named \<open>self\<close> or \<open>node_id\<close> clashes with a parameter of the method, and the call raises
  TypeError before the lock is taken. The body passes the attributes on as keywords, in
  \<open>self._graph.add_node(node_id, **attrs)\<close>, where an attribute named like a parameter
  of the library's method (\<open>self\<close>, \<open>node_for_adding\<close>) raises TypeError in the same way.
  In both cases the graph is untouched.
\<close>

definition add_node :: "graph \<Rightarrow> string \<Rightarrow> attrs \<Rightarrow> (error + unit) \<times> graph" where
  "add_node g node_id attrs =
     (if kwargs_clash [''self'', ''node_id''] attrs then (Inl TypeError, g)
      else if kwargs_clash [''self'', ''node_for_adding''] attrs then (Inl TypeError, g)
      else (Inr (), nx_add_node g node_id attrs))"

text \<open>
  \<open>add_edge(self, source, target, **attrs)\<close>, likewise: an attribute named \<open>self\<close>,
  \<open>source\<close> or \<open>target\<close> raises TypeError at the call of the method, and one named
  \<open>u_of_edge\<close> or \<open>v_of_edge\<close> at the call \<open>self._graph.add_edge(source, target, **attrs)\<close>
  in its body; the graph is untouched.
\<close>

definition add_edge :: "graph \<Rightarrow> string \<Rightarrow> string \<Rightarrow> attrs \<Rightarrow> (error + unit) \<times> graph" where
  "add_edge g source target attrs =
     (if kwargs_clash [''self'', ''source'', ''target''] attrs then (Inl TypeError, g)
      else if kwargs_clash [''self'', ''u_of_edge'', ''v_of_edge''] attrs then (Inl TypeError, g)
      else nx_add_edge g source target attrs)"

text \<open>
  \<open>query_node\<close> is handed whatever the route read from the request. The keys of the graph
  are strings, so a value that is not a string is no node of it (the library's membership
  test answers False also for an unhashable value). For a node, \<open>data\<close> is a copy of its
  attribute dictionary and \<open>edges\<close> lists, in the order of the node's neighbour
  dictionary, one tuple \<open>(node_id, neighbour)\<close> for each neighbour; reading the
  neighbour dictionary raises KeyError when \<open>adj\<close> lacks the node.
\<close>

definition query_node :: "graph \<Rightarrow> pyval \<Rightarrow> (error + pyval) \<times> graph" where
  "query_node g node_id =
     (case node_id of
        PStr s \<Rightarrow>
          (case map_of (node g) s of
             None \<Rightarrow> (Inr (PDict [(''exists'', PBool False)]), g)
           | Some d \<Rightarrow>
               (case map_of (adj g) s of
                  None \<Rightarrow> (Inl KeyError, g)
                | Some nbrs \<Rightarrow>
                    (Inr (PDict [(''exists'', PBool True),
                                 (''data'', PDict d),
                                 (''edges'', PList (map (\<lambda>(nbr, dd). PTuple [PStr s, PStr nbr]) nbrs))]),
                     g)))
      | _ \<Rightarrow> (Inr (PDict [(''exists'', PBool False)]), g))"

section \<open>AgentService (agents.py)\<close>

text \<open>
  \<open>process_message\<close> formats its argument into an f-string. A string is inserted as it
  is; for any other value Python inserts \<open>str(value)\<close>, which is taken as the parameter
  \<open>py_str\<close>. The method reads and writes nothing else.
\<close>

definition process_message :: "(pyval \<Rightarrow> string) \<Rightarrow> pyval \<Rightarrow> string" where
  "process_message py_str message =
     ''Processed: '' @ (case message of PStr s \<Rightarrow> s | _ \<Rightarrow> py_str message)"

section \<open>Routes (routes.py)\<close>

text \<open>
  A handler is a function of the graph of the process-wide \<open>graph_service\<close> and of the
  parsed request body; it gives the body passed to \<open>jsonify\<close> with the status code, or
  the exception it lets escape, and the graph afterwards.
\<close>

type_synonym response = "pyval \<times> nat"

definition graph_query :: "graph \<Rightarrow> pyval \<Rightarrow> (error + response) \<times> graph" where
  "graph_query g payload =
     (case py_get payload ''node'' PNone of
        Inl e \<Rightarrow> (Inl e, g)
      | Inr node_id \<Rightarrow>
          if \<not> truthy node_id
          then (Inr (PDict [(''error'', PStr (CHR 0x27 # ''node'' @ CHR 0x27 # '' is required''))], 400), g)
          else (case query_node g node_id of
                  (Inl e, g') \<Rightarrow> (Inl e, g')
                | (Inr result, g') \<Rightarrow> (Inr (result, 200), g')))"

definition chat :: "(pyval \<Rightarrow> string) \<Rightarrow> graph \<Rightarrow> pyval \<Rightarrow> (error + response) \<times> graph" where
  "chat py_str g payload =
     (case py_get payload ''message'' PNone of
        Inl e \<Rightarrow> (Inl e, g)
      | Inr message \<Rightarrow>
          if \<not> truthy message
          then (Inr (PDict [(''error'', PStr (CHR 0x27 # ''message'' @ CHR 0x27 # '' is required''))], 400), g)
          else (let response = process_message py_str message
                in (Inr (PDict [(''response'', PStr response)], 200), g)))"

definition document_analyze :: "graph \<Rightarrow> pyval \<Rightarrow> (error + response) \<times> graph" where
  "document_analyze g payload =
     (case py_get payload ''content'' (PStr []) of
        Inl e \<Rightarrow> (Inl e, g)
      | Inr content \<Rightarrow>
          (case py_slice_to content 100 of
             Inl e \<Rightarrow> (Inl e, g)
           | Inr summary \<Rightarrow>
               (case py_len content of
                  Inl e \<Rightarrow> (Inl e, g)
                | Inr n \<Rightarrow> (Inr (PDict [(''summary'', summary), (''length'', PInt n)], 200), g))))"

section \<open>Invariants of the graph\<close>

text \<open>
  \<open>adj_at g u v\<close> is the attribute dictionary stored under \<open>adj[u][v]\<close>, if there is
  one: the edge from \<open>u\<close> to \<open>v\<close> as node \<open>u\<close> sees it.
\<close>

definition adj_at :: "graph \<Rightarrow> string \<Rightarrow> string \<Rightarrow> attrs option" where
  "adj_at g u v = (case map_of (adj g) u of None \<Rightarrow> None | Some nbrs \<Rightarrow> map_of nbrs v)"

text \<open>
  Every edge's two endpoints exist as nodes: whenever \<open>adj\<close> lists \<open>v\<close> as a neighbour of
  \<open>u\<close>, both \<open>u\<close> and \<open>v\<close> are keys of \<open>node\<close>.
\<close>

definition endpoints_exist :: "graph \<Rightarrow> bool" where
  "endpoints_exist g \<longleftrightarrow>
     (\<forall>(u, nbrs) \<in> set (adj g).
        u \<in> fst ` set (node g) \<and> (\<forall>(v, dd) \<in> set nbrs. v \<in> fst ` set (node g)))"

text \<open>
  What the library keeps true of its two dictionaries: no key occurs twice in \<open>node\<close>, in
  \<open>adj\<close> or in a neighbour dictionary, \<open>node\<close> and \<open>adj\<close> have the same keys, and an
  edge is stored under both of its directions with the same attributes.
\<close>

definition consistent :: "graph \<Rightarrow> bool" where
  "consistent g \<longleftrightarrow>
     distinct (map fst (node g)) \<and> distinct (map fst (adj g))
     \<and> fst ` set (node g) = fst ` set (adj g)
     \<and> (\<forall>(u, nbrs) \<in> set (adj g).
           distinct (map fst nbrs) \<and> (\<forall>(v, dd) \<in> set nbrs. adj_at g v u = Some dd))"

text \<open>
  The neighbours of every node, in the order of the dictionaries: the edges of the graph
  without their attributes.
\<close>

definition adjacency :: "graph \<Rightarrow> (string \<times> string list) list" where
  "adjacency g = map (\<lambda>(w, nbrs). (w, map fst nbrs)) (adj g)"

text \<open>
  The calls a client can make on the service, and the graph the service holds after a
  sequence of them, starting from the graph it is created with.
\<close>

datatype call = AddNode string attrs | AddEdge string string attrs | QueryNode pyval

fun after_call :: "graph \<Rightarrow> call \<Rightarrow> graph" where
  "after_call g (AddNode node_id attrs) = snd (add_node g node_id attrs)"
| "after_call g (AddEdge source target attrs) = snd (add_edge g source target attrs)"
| "after_call g (QueryNode node_id) = snd (query_node g node_id)"

definition after_calls :: "call list \<Rightarrow> graph" where
  "after_calls calls = foldl after_call GraphService calls"

section \<open>Association lists and dictionary updates\<close>

lemma set_update_cases:
  "x \<in> set (AList.update k v al) \<Longrightarrow> x = (k, v) \<or> x \<in> set al"
  by (induction al) (auto split: if_splits)

lemma map_of_dict_update:
  "map_of (dict_update d attr) = map_of d ++ map_of (rev attr)"
  unfolding dict_update_def
proof (induction attr arbitrary: d)
  case Nil
  then show ?case by simp
next
  case (Cons p attr)
  obtain k v where p: "p = (k, v)" by (cases p)
  show ?case
    by (simp add: p Cons.IH update_conv' map_add_upd_left fun_eq_iff map_add_def split: option.splits)
qed

lemma dict_update_Nil [simp]: "dict_update d [] = d"
  by (simp add: dict_update_def)

section \<open>Implicit node creation\<close>

lemma node_keys_ensure:
  "fst ` set (node (nx_ensure_node g u)) = insert u (fst ` set (node g))"
proof (cases "map_of (node g) u")
  case None
  then show ?thesis by (simp add: nx_ensure_node_def dom_update)
next
  case (Some d)
  from map_of_SomeD[OF Some] have "u \<in> fst ` set (node g)" by force
  then show ?thesis using Some by (simp add: nx_ensure_node_def insert_absorb)
qed

lemma adj_at_ensure:
  assumes "fst ` set (node g) = fst ` set (adj g)"
  shows "adj_at (nx_ensure_node g u) x y = adj_at g x y"
proof (cases "map_of (node g) u")
  case (Some d)
  then show ?thesis by (simp add: nx_ensure_node_def)
next
  case None
  then have "u \<notin> fst ` set (adj g)" using assms by (simp add: map_of_eq_None_iff)
  then have "map_of (adj g) u = None" by (simp add: map_of_eq_None_iff)
  then show ?thesis using None
    by (simp add: nx_ensure_node_def adj_at_def update_conv')
qed

section \<open>The library keeps its dictionaries consistent\<close>

lemma consistentI:
  assumes "distinct (map fst (node g))" and "distinct (map fst (adj g))"
    and "fst ` set (node g) = fst ` set (adj g)"
    and "\<And>u nbrs. (u, nbrs) \<in> set (adj g) \<Longrightarrow> distinct (map fst nbrs)"
    and "\<And>u nbrs v dd. (u, nbrs) \<in> set (adj g) \<Longrightarrow> (v, dd) \<in> set nbrs \<Longrightarrow> adj_at g v u = Some dd"
  shows "consistent g"
  unfolding consistent_def using assms by fast

lemma consistent_keys: "consistent g \<Longrightarrow> fst ` set (node g) = fst ` set (adj g)"
  by (simp add: consistent_def)

lemma consistent_distinct:
  "consistent g \<Longrightarrow> distinct (map fst (node g)) \<and> distinct (map fst (adj g))"
  by (simp add: consistent_def)

lemma consistent_nbrs_distinct:
  "consistent g \<Longrightarrow> (u, nbrs) \<in> set (adj g) \<Longrightarrow> distinct (map fst nbrs)"
  unfolding consistent_def by fast

lemma consistent_sym:
  "consistent g \<Longrightarrow> (u, nbrs) \<in> set (adj g) \<Longrightarrow> (v, dd) \<in> set nbrs \<Longrightarrow> adj_at g v u = Some dd"
  unfolding consistent_def by fast

lemma consistent_ensure:
  assumes c: "consistent g"
  shows "consistent (nx_ensure_node g u)"
proof (cases "map_of (node g) u")
  case (Some d)
  then show ?thesis using c by (simp add: nx_ensure_node_def)
next
  case None
  let ?g = "nx_ensure_node g u"
  have keq: "fst ` set (node g) = fst ` set (adj g)" by (rule consistent_keys[OF c])
  have n': "node ?g = AList.update u [] (node g)" and a': "adj ?g = AList.update u [] (adj g)"
    using None by (simp_all add: nx_ensure_node_def)
  have at: "adj_at ?g x y = adj_at g x y" for x y by (rule adj_at_ensure[OF keq])
  have old: "(w, nbrs) = (u, []) \<or> (w, nbrs) \<in> set (adj g)" if "(w, nbrs) \<in> set (adj ?g)" for w nbrs
    using that unfolding a' by (rule set_update_cases)
  show ?thesis
  proof (rule consistentI)
    show "distinct (map fst (node ?g))" "distinct (map fst (adj ?g))"
      using consistent_distinct[OF c] by (simp_all add: n' a' distinct_update)
    show "fst ` set (node ?g) = fst ` set (adj ?g)"
      using keq by (simp add: n' a' dom_update)
  next
    fix w nbrs assume "(w, nbrs) \<in> set (adj ?g)"
    from old[OF this] show "distinct (map fst nbrs)"
      using consistent_nbrs_distinct[OF c] by auto
  next
    fix w nbrs v dd assume "(w, nbrs) \<in> set (adj ?g)" and v: "(v, dd) \<in> set nbrs"
    from old[OF this(1)] v have "(w, nbrs) \<in> set (adj g)" by auto
    from consistent_sym[OF c this v] show "adj_at ?g v w = Some dd" by (simp add: at)
  qed
qed

section \<open>Edges keep their endpoints\<close>

lemma endpoints_existI:
  assumes "\<And>u nbrs. (u, nbrs) \<in> set (adj g) \<Longrightarrow> u \<in> fst ` set (node g)"
    and "\<And>u nbrs v dd. (u, nbrs) \<in> set (adj g) \<Longrightarrow> (v, dd) \<in> set nbrs \<Longrightarrow> v \<in> fst ` set (node g)"
  shows "endpoints_exist g"
  unfolding endpoints_exist_def using assms by fast

lemma endpoints_exist_src:
  "endpoints_exist g \<Longrightarrow> (u, nbrs) \<in> set (adj g) \<Longrightarrow> u \<in> fst ` set (node g)"
  unfolding endpoints_exist_def by fast

lemma endpoints_exist_tgt:
  "endpoints_exist g \<Longrightarrow> (u, nbrs) \<in> set (adj g) \<Longrightarrow> (v, dd) \<in> set nbrs \<Longrightarrow> v \<in> fst ` set (node g)"
  unfolding endpoints_exist_def by fast

lemma endpoints_exist_node_update:
  assumes e: "endpoints_exist g"
  shows "endpoints_exist (g\<lparr> node := AList.update n d (node g) \<rparr>)"
proof (rule endpoints_existI)
  fix u nbrs assume "(u, nbrs) \<in> set (adj (g\<lparr> node := AList.update n d (node g) \<rparr>))"
  then have "(u, nbrs) \<in> set (adj g)" by simp
  from endpoints_exist_src[OF e this]
  show "u \<in> fst ` set (node (g\<lparr> node := AList.update n d (node g) \<rparr>))"
    by (simp add: dom_update)
next
  fix u nbrs v dd
  assume "(u, nbrs) \<in> set (adj (g\<lparr> node := AList.update n d (node g) \<rparr>))" and v: "(v, dd) \<in> set nbrs"
  then have "(u, nbrs) \<in> set (adj g)" by simp
  from endpoints_exist_tgt[OF e this v]
  show "v \<in> fst ` set (node (g\<lparr> node := AList.update n d (node g) \<rparr>))"
    by (simp add: dom_update)
qed

lemma endpoints_exist_adj_update:
  assumes e: "endpoints_exist g"
    and u: "u \<in> fst ` set (node g)"
    and new: "\<And>v dd. (v, dd) \<in> set nbrs \<Longrightarrow> v \<in> fst ` set (node g)"
  shows "endpoints_exist (g\<lparr> adj := AList.update u nbrs (adj g) \<rparr>)"
proof (rule endpoints_existI)
  fix w ns assume "(w, ns) \<in> set (adj (g\<lparr> adj := AList.update u nbrs (adj g) \<rparr>))"
  then have "(w, ns) = (u, nbrs) \<or> (w, ns) \<in> set (adj g)"
    by (auto dest: set_update_cases)
  then show "w \<in> fst ` set (node (g\<lparr> adj := AList.update u nbrs (adj g) \<rparr>))"
    using u endpoints_exist_src[OF e] by auto
next
  fix w ns v dd
  assume "(w, ns) \<in> set (adj (g\<lparr> adj := AList.update u nbrs (adj g) \<rparr>))" and v: "(v, dd) \<in> set ns"
  then have "(w, ns) = (u, nbrs) \<or> (w, ns) \<in> set (adj g)"
    by (auto dest: set_update_cases)
  then show "v \<in> fst ` set (node (g\<lparr> adj := AList.update u nbrs (adj g) \<rparr>))"
    using v new endpoints_exist_tgt[OF e] by auto
qed

lemma endpoints_exist_new_node:
  assumes e: "endpoints_exist g"
  shows "endpoints_exist (g\<lparr> adj := AList.update n [] (adj g), node := AList.update n d (node g) \<rparr>)"
proof -
  let ?g1 = "g\<lparr> node := AList.update n d (node g) \<rparr>"
  have e1: "endpoints_exist ?g1" by (rule endpoints_exist_node_update[OF e])
  have eq: "g\<lparr> adj := AList.update n [] (adj g), node := AList.update n d (node g) \<rparr>
      = ?g1\<lparr> adj := AList.update n [] (adj ?g1) \<rparr>"
    by (cases g) simp
  show ?thesis unfolding eq
    by (rule endpoints_exist_adj_update[OF e1]) (simp_all add: dom_update)
qed

lemma endpoints_exist_ensure:
  "endpoints_exist g \<Longrightarrow> endpoints_exist (nx_ensure_node g u)"
  by (cases "map_of (node g) u") (simp_all add: nx_ensure_node_def endpoints_exist_new_node)

lemma endpoints_exist_nx_add_node:
  "endpoints_exist g \<Longrightarrow> endpoints_exist (nx_add_node g n attr)"
  by (cases "map_of (node g) n")
     (simp_all add: nx_add_node_def endpoints_exist_new_node endpoints_exist_node_update)

lemma endpoints_exist_nx_add_edge:
  assumes e: "endpoints_exist g"
  shows "endpoints_exist (snd (nx_add_edge g u v attr))"
proof -
  let ?g1 = "nx_ensure_node (nx_ensure_node g u) v"
  have e1: "endpoints_exist ?g1" by (intro endpoints_exist_ensure e)
  have u1: "u \<in> fst ` set (node ?g1)" and v1: "v \<in> fst ` set (node ?g1)"
    by (simp_all add: node_keys_ensure)
  show ?thesis
  proof (cases "map_of (adj ?g1) u")
    case None
    then show ?thesis using e1 by (simp add: nx_add_edge_def)
  next
    case (Some adj_u)
    let ?dd = "dict_update (case map_of adj_u v of None \<Rightarrow> [] | Some d \<Rightarrow> d) attr"
    let ?g2 = "?g1\<lparr> adj := AList.update u (AList.update v ?dd adj_u) (adj ?g1) \<rparr>"
    have in1: "(u, adj_u) \<in> set (adj ?g1)" by (rule map_of_SomeD[OF Some])
    have e2: "endpoints_exist ?g2"
    proof (rule endpoints_exist_adj_update[OF e1 u1])
      fix w dd assume "(w, dd) \<in> set (AList.update v ?dd adj_u)"
      then have "(w, dd) = (v, ?dd) \<or> (w, dd) \<in> set adj_u" by (rule set_update_cases)
      then show "w \<in> fst ` set (node ?g1)"
        using v1 endpoints_exist_tgt[OF e1 in1] by auto
    qed
    have n2: "node ?g2 = node ?g1" by simp
    show ?thesis
    proof (cases "map_of (adj ?g2) v")
      case None
      then show ?thesis using e2 Some by (simp add: nx_add_edge_def Let_def)
    next
      case (Some adj_v)
      have in2: "(v, adj_v) \<in> set (adj ?g2)" by (rule map_of_SomeD[OF Some])
      have e3: "endpoints_exist (?g2\<lparr> adj := AList.update v (AList.update u ?dd adj_v) (adj ?g2) \<rparr>)"
      proof (rule endpoints_exist_adj_update[OF e2])
        show "v \<in> fst ` set (node ?g2)" using v1 by simp
      next
        fix w dd assume "(w, dd) \<in> set (AList.update u ?dd adj_v)"
        then have "(w, dd) = (u, ?dd) \<or> (w, dd) \<in> set adj_v" by (rule set_update_cases)
        then show "w \<in> fst ` set (node ?g2)"
          using u1 endpoints_exist_tgt[OF e2 in2] by auto
      qed
      show ?thesis using e3 Some \<open>map_of (adj ?g1) u = Some adj_u\<close>
        by (simp add: nx_add_edge_def Let_def)
    qed
  qed
qed

section \<open>Adding an edge\<close>

lemma consistent_adj_lookup:
  assumes "consistent g" and "k \<in> fst ` set (node g)"
  obtains nb where "map_of (adj g) k = Some nb"
proof -
  from assms have "k \<in> fst ` set (adj g)" by (simp add: consistent_keys)
  then have "map_of (adj g) k \<noteq> None" by (simp add: map_of_eq_None_iff)
  then show ?thesis using that by blast
qed

lemma consistent_adj_at_sym:
  assumes c: "consistent g" and a: "adj_at g x y = Some d"
  shows "adj_at g y x = Some d"
proof -
  from a obtain nb where nb: "map_of (adj g) x = Some nb" and d: "map_of nb y = Some d"
    by (auto simp: adj_at_def split: option.splits)
  show ?thesis by (rule consistent_sym[OF c map_of_SomeD[OF nb] map_of_SomeD[OF d]])
qed

lemma adjacency_update:
  assumes "map_of (adj g) k = Some nb" and "map_of nb k' = Some d"
  shows "adjacency (g\<lparr> adj := AList.update k (AList.update k' d' nb) (adj g) \<rparr>) = adjacency g"
proof -
  have keys: "map fst (AList.update k' d' nb) = map fst nb"
    using assms(2) by (induction nb) (auto split: if_splits)
  have "map_of al k = Some nb \<Longrightarrow>
      map (\<lambda>(w, nbrs). (w, map fst nbrs)) (AList.update k (AList.update k' d' nb) al)
        = map (\<lambda>(w, nbrs). (w, map fst nbrs)) al" for al
    by (induction al) (auto simp: keys split: if_splits)
  from this[OF assms(1)] show ?thesis by (simp add: adjacency_def)
qed

lemma update_keys_present:
  "map_of al k = Some v \<Longrightarrow> map fst (AList.update k v' al) = map fst al"
  by (induction al) (auto split: if_splits)

lemma adj_at_edge_update:
  assumes "map_of (adj g) k = Some nb"
  shows "adj_at (g\<lparr> adj := AList.update k (AList.update k' d nb) (adj g) \<rparr>) x y
           = (if x = k \<and> y = k' then Some d else adj_at g x y)"
  using assms by (simp add: adj_at_def update_conv')

lemma nbrs_distinct_adj_update:
  assumes old: "\<And>w nbrs. (w, nbrs) \<in> set (adj g) \<Longrightarrow> distinct (map fst nbrs)"
    and new: "distinct (map fst nb)"
    and mem: "(w, nbrs) \<in> set (adj (g\<lparr> adj := AList.update k nb (adj g) \<rparr>))"
  shows "distinct (map fst nbrs)"
proof -
  from mem have "(w, nbrs) = (k, nb) \<or> (w, nbrs) \<in> set (adj g)"
    by (auto dest: set_update_cases)
  then show ?thesis using old new by auto
qed

lemma nx_add_edge_consistent:
  assumes c: "consistent g"
  shows "\<exists>g'. nx_add_edge g u v attr = (Inr (), g')
      \<and> node g' = node (nx_ensure_node (nx_ensure_node g u) v)
      \<and> map fst (adj g') = map fst (adj (nx_ensure_node (nx_ensure_node g u) v))
      \<and> (\<forall>x y. adj_at g' x y =
            (if (x = u \<and> y = v) \<or> (x = v \<and> y = u)
             then Some (dict_update (case adj_at g u v of None \<Rightarrow> [] | Some d \<Rightarrow> d) attr)
             else adj_at g x y))
      \<and> (adj_at g u v \<noteq> None \<longrightarrow> node g' = node g \<and> adjacency g' = adjacency g)
      \<and> consistent g'"
proof -
  define g0 where "g0 = nx_ensure_node g u"
  define g1 where "g1 = nx_ensure_node g0 v"
  define dd where "dd = dict_update (case adj_at g u v of None \<Rightarrow> [] | Some d \<Rightarrow> d) attr"
  have c0: "consistent g0" unfolding g0_def by (rule consistent_ensure[OF c])
  have c1: "consistent g1" unfolding g1_def by (rule consistent_ensure[OF c0])
  have u1: "u \<in> fst ` set (node g1)" and v1: "v \<in> fst ` set (node g1)"
    by (simp_all add: g1_def g0_def node_keys_ensure)
  have at1: "adj_at g1 x y = adj_at g x y" for x y
    unfolding g1_def adj_at_ensure[OF consistent_keys[OF c0]]
    unfolding g0_def adj_at_ensure[OF consistent_keys[OF c]] ..
  obtain adj_u where adj_u: "map_of (adj g1) u = Some adj_u"
    by (rule consistent_adj_lookup[OF c1 u1])
  have lu: "map_of adj_u y = adj_at g u y" for y
    using adj_u at1[of u y] by (simp add: adj_at_def)
  define g2 where "g2 = g1\<lparr> adj := AList.update u (AList.update v dd adj_u) (adj g1) \<rparr>"
  have at2: "adj_at g2 x y = (if x = u \<and> y = v then Some dd else adj_at g x y)" for x y
    unfolding g2_def adj_at_edge_update[OF adj_u] at1 ..
  have a2: "adj g2 = AList.update u (AList.update v dd adj_u) (adj g1)"
    and n2: "node g2 = node g1"
    by (simp_all add: g2_def)
  have "v \<in> fst ` set (adj g2)"
    using v1 consistent_keys[OF c1] by (simp add: a2 dom_update)
  then have "map_of (adj g2) v \<noteq> None" by (simp add: map_of_eq_None_iff)
  then obtain adj_v where adj_v: "map_of (adj g2) v = Some adj_v" by blast
  define g3 where "g3 = g2\<lparr> adj := AList.update v (AList.update u dd adj_v) (adj g2) \<rparr>"
  have a3: "adj g3 = AList.update v (AList.update u dd adj_v) (adj g2)"
    and n3: "node g3 = node g1"
    by (simp_all add: g3_def n2)
  have at3': "adj_at g3 x y = (if x = v \<and> y = u then Some dd else adj_at g2 x y)" for x y
    unfolding g3_def by (rule adj_at_edge_update[OF adj_v])
  have at3: "adj_at g3 x y =
      (if (x = u \<and> y = v) \<or> (x = v \<and> y = u) then Some dd else adj_at g x y)" for x y
  proof (cases "x = v \<and> y = u")
    case True
    then show ?thesis by (simp only: at3' if_True) simp
  next
    case False
    then show ?thesis by (simp only: at3' at2 if_False) auto
  qed
  have res: "nx_add_edge g u v attr = (Inr (), g3)"
  proof -
    have "(case map_of adj_u v of None \<Rightarrow> [] | Some d \<Rightarrow> d)
        = (case adj_at g u v of None \<Rightarrow> [] | Some d \<Rightarrow> d)"
      by (simp only: lu)
    then have "dict_update (case map_of adj_u v of None \<Rightarrow> [] | Some d \<Rightarrow> d) attr = dd"
      by (simp only: dd_def)
    then show ?thesis
      unfolding nx_add_edge_def Let_def g0_def[symmetric] g1_def[symmetric]
      using adj_u adj_v by (simp add: g2_def[symmetric] g3_def[symmetric])
  qed
  have k2: "map fst (adj g2) = map fst (adj g1)"
    unfolding a2 by (rule update_keys_present[OF adj_u])
  have k3: "map fst (adj g3) = map fst (adj g1)"
    unfolding a3 using update_keys_present[OF adj_v] k2 by simp
  have d1: "distinct (map fst nbrs)" if "(w, nbrs) \<in> set (adj g1)" for w nbrs
    by (rule consistent_nbrs_distinct[OF c1 that])
  have d2: "distinct (map fst nbrs)" if "(w, nbrs) \<in> set (adj g2)" for w nbrs
  proof -
    from that have "(w, nbrs) = (u, AList.update v dd adj_u) \<or> (w, nbrs) \<in> set (adj g1)"
      unfolding a2 by (rule set_update_cases)
    then show ?thesis
      using d1 distinct_update[OF d1[OF map_of_SomeD[OF adj_u]]] by auto
  qed
  have d3: "distinct (map fst nbrs)" if "(w, nbrs) \<in> set (adj g3)" for w nbrs
  proof -
    from that have "(w, nbrs) = (v, AList.update u dd adj_v) \<or> (w, nbrs) \<in> set (adj g2)"
      unfolding a3 by (rule set_update_cases)
    then show ?thesis
      using d2 distinct_update[OF d2[OF map_of_SomeD[OF adj_v]]] by auto
  qed
  have dk3: "distinct (map fst (adj g3))"
    unfolding k3 using consistent_distinct[OF c1] by simp
  have c3: "consistent g3"
  proof (rule consistentI)
    show "distinct (map fst (node g3))" using consistent_distinct[OF c1] by (simp add: n3)
    show "distinct (map fst (adj g3))" by (rule dk3)
    have "set (map fst (adj g3)) = set (map fst (adj g1))" by (simp only: k3)
    then show "fst ` set (node g3) = fst ` set (adj g3)"
      using consistent_keys[OF c1] by (simp add: n3)
  next
    fix w nbrs assume "(w, nbrs) \<in> set (adj g3)"
    then show "distinct (map fst nbrs)" by (rule d3)
  next
    fix w nbrs y d assume m: "(w, nbrs) \<in> set (adj g3)" and y: "(y, d) \<in> set nbrs"
    have "map_of (adj g3) w = Some nbrs" using dk3 m by simp
    moreover have "map_of nbrs y = Some d" using d3[OF m] y by simp
    ultimately have a: "adj_at g3 w y = Some d" by (simp add: adj_at_def)
    show "adj_at g3 y w = Some d"
    proof (cases "(w = u \<and> y = v) \<or> (w = v \<and> y = u)")
      case True
      then show ?thesis using a unfolding at3 by (auto split: if_splits)
    next
      case False
      then have "adj_at g w y = Some d" using a unfolding at3 by (auto split: if_splits)
      then have "adj_at g y w = Some d" by (rule consistent_adj_at_sym[OF c])
      then show ?thesis using False unfolding at3 by (auto split: if_splits)
    qed
  qed
  have same: "node g3 = node g \<and> adjacency g3 = adjacency g" if "adj_at g u v \<noteq> None"
  proof -
    from that obtain d where d: "adj_at g u v = Some d" by blast
    have d': "adj_at g v u = Some d" by (rule consistent_adj_at_sym[OF c d])
    from d have "map_of (adj g) u \<noteq> None" by (auto simp: adj_at_def split: option.splits)
    then have "u \<in> fst ` set (node g)"
      by (simp add: map_of_eq_None_iff consistent_keys[OF c])
    then have "map_of (node g) u \<noteq> None" by (simp add: map_of_eq_None_iff)
    then have e0: "g0 = g" by (auto simp: g0_def nx_ensure_node_def)
    from d' have "map_of (adj g) v \<noteq> None" by (auto simp: adj_at_def split: option.splits)
    then have "v \<in> fst ` set (node g)"
      by (simp add: map_of_eq_None_iff consistent_keys[OF c])
    then have "map_of (node g) v \<noteq> None" by (simp add: map_of_eq_None_iff)
    then have e1: "g1 = g" by (auto simp: g1_def e0 nx_ensure_node_def)
    have "map_of adj_u v = Some d" by (simp only: lu d)
    then have s2: "adjacency g2 = adjacency g1"
      unfolding g2_def by (rule adjacency_update[OF adj_u])
    have "adj_at g2 v u \<noteq> None" unfolding at2 using d' by auto
    then obtain d2 where "map_of adj_v u = Some d2"
      using adj_v by (auto simp: adj_at_def)
    then have s3: "adjacency g3 = adjacency g2"
      unfolding g3_def by (rule adjacency_update[OF adj_v])
    show ?thesis by (simp add: n3 s3 s2 e1)
  qed
  show ?thesis
    using res n3 k3 at3 c3 same unfolding g1_def g0_def dd_def by blast
qed

section \<open>Adding a node\<close>

lemma consistent_nx_Graph: "consistent nx_Graph"
  by (simp add: consistent_def nx_Graph_def)

lemma consistent_node_update:
  assumes c: "consistent g" and k: "map_of (node g) n = Some d"
  shows "consistent (g\<lparr> node := AList.update n d' (node g) \<rparr>)"
proof -
  have keys: "map fst (AList.update n d' (node g)) = map fst (node g)"
    by (rule update_keys_present[OF k])
  have at: "adj_at (g\<lparr> node := AList.update n d' (node g) \<rparr>) x y = adj_at g x y" for x y
    by (simp add: adj_at_def)
  have "set (map fst (AList.update n d' (node g))) = set (map fst (node g))"
    by (simp only: keys)
  then have ks: "fst ` set (AList.update n d' (node g)) = fst ` set (node g)" by simp
  show ?thesis
    using c unfolding consistent_def at by (simp add: keys ks)
qed

lemma consistent_new_node:
  assumes c: "consistent g" and k: "map_of (node g) n = None"
  shows "consistent (g\<lparr> adj := AList.update n [] (adj g), node := AList.update n d (node g) \<rparr>)"
proof -
  define g' where "g' = g\<lparr> adj := AList.update n [] (adj g), node := AList.update n d (node g) \<rparr>"
  have n': "node g' = AList.update n d (node g)" and a': "adj g' = AList.update n [] (adj g)"
    by (simp_all add: g'_def)
  have keq: "fst ` set (node g) = fst ` set (adj g)" by (rule consistent_keys[OF c])
  from k have "n \<notin> fst ` set (adj g)" using keq by (simp add: map_of_eq_None_iff)
  then have an: "map_of (adj g) n = None" by (simp add: map_of_eq_None_iff)
  have at: "adj_at g' x y = adj_at g x y" for x y
    using an by (simp add: adj_at_def a' update_conv')
  have old: "(w, nbrs) = (n, []) \<or> (w, nbrs) \<in> set (adj g)" if "(w, nbrs) \<in> set (adj g')" for w nbrs
    using that unfolding a' by (rule set_update_cases)
  have "consistent g'"
  proof (rule consistentI)
    show "distinct (map fst (node g'))" "distinct (map fst (adj g'))"
      using consistent_distinct[OF c] by (simp_all add: n' a' distinct_update)
    show "fst ` set (node g') = fst ` set (adj g')"
      using keq by (simp add: n' a' dom_update)
  next
    fix w nbrs assume "(w, nbrs) \<in> set (adj g')"
    from old[OF this] show "distinct (map fst nbrs)"
      using consistent_nbrs_distinct[OF c] by auto
  next
    fix w nbrs v dd assume "(w, nbrs) \<in> set (adj g')" and v: "(v, dd) \<in> set nbrs"
    from old[OF this(1)] v have "(w, nbrs) \<in> set (adj g)" by auto
    from consistent_sym[OF c this v] show "adj_at g' v w = Some dd" by (simp add: at)
  qed
  then show ?thesis by (simp only: g'_def)
qed

lemma consistent_nx_add_node: "consistent g \<Longrightarrow> consistent (nx_add_node g n attr)"
  by (cases "map_of (node g) n")
     (simp_all add: nx_add_node_def consistent_new_node consistent_node_update)

lemma nx_add_node_twice: "nx_add_node (nx_add_node g n []) n [] = nx_add_node g n []"
proof (cases "map_of (node g) n")
  case None
  then show ?thesis by (simp add: nx_add_node_def update_conv')
next
  case (Some d)
  then show ?thesis by (simp add: nx_add_node_def update_conv')
qed

lemma distinct_count_one:
  "distinct xs \<Longrightarrow> x \<in> set xs \<Longrightarrow> length (filter (\<lambda>k. k = x) xs) = 1"
proof (induction xs)
  case Nil
  then show ?case by simp
next
  case (Cons a xs)
  show ?case
  proof (cases "a = x")
    case True
    with Cons.prems have "x \<notin> set xs" by simp
    then have "filter (\<lambda>k. k = x) xs = []" by (auto simp: filter_empty_conv)
    with True show ?thesis by simp
  next
    case False
    with Cons show ?thesis by simp
  qed
qed

lemma node_keys_nx_add_node:
  "fst ` set (node (nx_add_node g n attr)) = insert n (fst ` set (node g))"
  by (cases "map_of (node g) n") (simp_all add: nx_add_node_def dom_update)

section \<open>Keyword arguments\<close>

text \<open>
  The two methods in terms of the attribute names: when no attribute is named like a
  parameter the body runs, otherwise the call raises and the graph is the one before.
\<close>

lemma add_node_cases:
  "add_node g node_id attrs =
     (if fst ` set attrs \<inter> {''self'', ''node_id'', ''node_for_adding''} = {}
      then (Inr (), nx_add_node g node_id attrs) else (Inl TypeError, g))"
  by (auto simp: add_node_def kwargs_clash_def)

lemma add_edge_cases:
  "add_edge g source target attrs =
     (if fst ` set attrs \<inter> {''self'', ''source'', ''target'', ''u_of_edge'', ''v_of_edge''} = {}
      then nx_add_edge g source target attrs else (Inl TypeError, g))"
  by (auto simp: add_edge_def kwargs_clash_def)

lemma add_node_Nil: "add_node g node_id [] = (Inr (), nx_add_node g node_id [])"
  by (simp add: add_node_def kwargs_clash_def)

lemma add_edge_Nil: "add_edge g source target [] = nx_add_edge g source target []"
  by (simp add: add_edge_def kwargs_clash_def)

lemma add_node_state:
  "snd (add_node g node_id attrs) = g \<or> snd (add_node g node_id attrs) = nx_add_node g node_id attrs"
  by (simp add: add_node_def)

lemma add_edge_state:
  "snd (add_edge g source target attrs) = g
   \<or> snd (add_edge g source target attrs) = snd (nx_add_edge g source target attrs)"
  by (simp add: add_edge_def)

section \<open>Queries\<close>

lemma query_node_state: "snd (query_node g node_id) = g"
  by (simp add: query_node_def split: pyval.splits option.splits)

lemma query_node_present:
  "map_of (node g) s = Some d \<Longrightarrow> map_of (adj g) s = Some nbrs \<Longrightarrow>
     query_node g (PStr s)
       = (Inr (PDict [(''exists'', PBool True), (''data'', PDict d),
                      (''edges'', PList (map (\<lambda>(nbr, dd). PTuple [PStr s, PStr nbr]) nbrs))]), g)"
  by (simp add: query_node_def)

lemma adj_at_SomeE:
  assumes "adj_at g x y = Some d"
  obtains nbrs where "map_of (adj g) x = Some nbrs" and "map_of nbrs y = Some d"
  using assms by (auto simp: adj_at_def split: option.splits)

text \<open>Every graph the service reaches is consistent.\<close>

lemma consistent_after_call: "consistent g \<Longrightarrow> consistent (after_call g c)"
proof (cases c)
  case (AddNode node_id attrs)
  assume "consistent g"
  then show ?thesis
    using add_node_state[of g node_id attrs] by (auto simp: AddNode consistent_nx_add_node)
next
  case (AddEdge source target attrs)
  assume "consistent g"
  from nx_add_edge_consistent[OF this, of source target attrs] \<open>consistent g\<close>
  show ?thesis using add_edge_state[of g source target attrs] by (auto simp: AddEdge)
next
  case (QueryNode node_id)
  assume "consistent g"
  then show ?thesis by (simp add: QueryNode query_node_state)
qed

lemma consistent_foldl: "consistent g \<Longrightarrow> consistent (foldl after_call g calls)"
  by (induction calls arbitrary: g) (simp_all add: consistent_after_call)

lemma consistent_after_calls: "consistent (after_calls calls)"
  unfolding after_calls_def
  by (rule consistent_foldl) (simp add: GraphService_def consistent_nx_Graph)

section \<open>The claims\<close>

text \<open>
  C1. In every consistent graph (every graph the service reaches is one), for every pair
  of identifiers, and for all attributes none of which is named like a parameter of the
  method or of the library's (the call \<open>add_edge(source, target)\<close> of the claim passes
  none), \<open>add_edge\<close> succeeds; in the graph it leaves, \<open>query_node\<close> of the source answers
  \<open>exists\<close> true with an \<open>edges\<close> list that holds the tuple \<open>(source, target)\<close>, and
  \<open>query_node\<close> of the target answers \<open>exists\<close> true, whether or not the two were nodes
  before.
\<close>

theorem C1_add_edge_query:
  assumes c: "consistent g"
    and k: "fst ` set attrs \<inter> {''self'', ''source'', ''target'', ''u_of_edge'', ''v_of_edge''} = {}"
  shows "\<exists>g'. add_edge g source target attrs = (Inr (), g')
     \<and> (\<exists>d es. query_node g' (PStr source)
                 = (Inr (PDict [(''exists'', PBool True), (''data'', PDict d), (''edges'', PList es)]), g')
               \<and> PTuple [PStr source, PStr target] \<in> set es)
     \<and> (\<exists>d es. query_node g' (PStr target)
                 = (Inr (PDict [(''exists'', PBool True), (''data'', PDict d), (''edges'', PList es)]), g'))"
proof -
  define dd where "dd = dict_update (case adj_at g source target of None \<Rightarrow> [] | Some d \<Rightarrow> d) attrs"
  have bound: "add_edge g source target attrs = nx_add_edge g source target attrs"
    unfolding add_edge_cases k by (rule if_P) (rule refl)
  from nx_add_edge_consistent[OF c, of source target attrs]
  obtain g' where res: "nx_add_edge g source target attrs = (Inr (), g')"
    and n: "node g' = node (nx_ensure_node (nx_ensure_node g source) target)"
    and at: "\<And>x y. adj_at g' x y =
            (if (x = source \<and> y = target) \<or> (x = target \<and> y = source) then Some dd else adj_at g x y)"
    unfolding dd_def by blast
  have "source \<in> fst ` set (node g')" and "target \<in> fst ` set (node g')"
    by (simp_all add: n node_keys_ensure)
  then have "map_of (node g') source \<noteq> None" and "map_of (node g') target \<noteq> None"
    by (simp_all add: map_of_eq_None_iff)
  then obtain ds dt where ds: "map_of (node g') source = Some ds"
    and dt: "map_of (node g') target = Some dt" by blast
  have "adj_at g' source target = Some dd" unfolding at by (rule if_P) blast
  then obtain ns where ns: "map_of (adj g') source = Some ns" and st: "map_of ns target = Some dd"
    by (rule adj_at_SomeE)
  have "adj_at g' target source = Some dd" unfolding at by (rule if_P) blast
  then obtain nt where nt: "map_of (adj g') target = Some nt"
    by (rule adj_at_SomeE)
  have "(target, dd) \<in> set ns" by (rule map_of_SomeD[OF st])
  then have "PTuple [PStr source, PStr target]
      \<in> set (map (\<lambda>(nbr, dd). PTuple [PStr source, PStr nbr]) ns)" by force
  then show ?thesis
    using res query_node_present[OF ds ns] query_node_present[OF dt nt]
    unfolding bound by blast
qed

theorem C1_add_edge_query_witness:
  "consistent GraphService
   \<and> fst ` set ([] :: attrs) \<inter> {''self'', ''source'', ''target'', ''u_of_edge'', ''v_of_edge''} = {}
   \<and> (\<exists>g'. add_edge GraphService ''a'' ''b'' [] = (Inr (), g')
     \<and> (\<exists>d es. query_node g' (PStr ''a'')
                 = (Inr (PDict [(''exists'', PBool True), (''data'', PDict d), (''edges'', PList es)]), g')
               \<and> PTuple [PStr ''a'', PStr ''b''] \<in> set es)
     \<and> (\<exists>d es. query_node g' (PStr ''b'')
                 = (Inr (PDict [(''exists'', PBool True), (''data'', PDict d), (''edges'', PList es)]), g')))"
proof -
  have h: "consistent GraphService" by (simp add: GraphService_def consistent_nx_Graph)
  have k: "fst ` set ([] :: attrs) \<inter> {''self'', ''source'', ''target'', ''u_of_edge'', ''v_of_edge''} = {}"
    by simp
  show ?thesis using h k C1_add_edge_query[OF h k, of "''a''" "''b''"] by blast
qed

text \<open>
  C2. For every identifier that is not a node of the graph, \<open>query_node\<close> returns
  exactly the dictionary \<open>{"exists": False}\<close>, with no other key, as a normal result and
  not as an error, and leaves the graph as it was. The nodes of the graph are the keys of
  \<open>node\<close>; the identifier may be any Python value.
\<close>

theorem C2_query_absent:
  "node_id \<notin> PStr ` fst ` set (node g) \<Longrightarrow>
     query_node g node_id = (Inr (PDict [(''exists'', PBool False)]), g)"
proof (cases node_id)
  case (PStr s)
  assume "node_id \<notin> PStr ` fst ` set (node g)"
  with PStr have "s \<notin> fst ` set (node g)" by blast
  then have "map_of (node g) s = None" by (simp add: map_of_eq_None_iff)
  then show ?thesis by (simp add: query_node_def PStr)
qed (simp_all add: query_node_def)

theorem C2_query_absent_witness:
  "add_node GraphService ''a'' [] = (Inr (), \<lparr> node = [(''a'', [])], adj = [(''a'', [])] \<rparr>)
   \<and> PStr ''b'' \<notin> PStr ` fst ` set (node \<lparr> node = [(''a'', [])], adj = [(''a'', [])] \<rparr>)
   \<and> query_node \<lparr> node = [(''a'', [])], adj = [(''a'', [])] \<rparr> (PStr ''b'')
       = (Inr (PDict [(''exists'', PBool False)]), \<lparr> node = [(''a'', [])], adj = [(''a'', [])] \<rparr>)"
proof -
  have a: "add_node GraphService ''a'' [] = (Inr (), \<lparr> node = [(''a'', [])], adj = [(''a'', [])] \<rparr>)"
    by (simp add: add_node_Nil nx_add_node_def GraphService_def nx_Graph_def)
  have h: "PStr ''b'' \<notin> PStr ` fst ` set (node \<lparr> node = [(''a'', [])], adj = [(''a'', [])] \<rparr>)"
    by simp
  show ?thesis using a h C2_query_absent[OF h] by simp
qed

text \<open>
  C3. Every edge's two endpoints exist as nodes: this holds in the initial, empty graph
  of the service, and \<open>add_node\<close>, \<open>add_edge\<close> and \<open>query_node\<close> preserve it for all
  arguments and whatever their outcome; \<open>add_edge\<close> keeps it by creating the endpoints
  it does not find.
\<close>

theorem C3_endpoints_exist:
  "endpoints_exist GraphService
   \<and> (endpoints_exist g \<longrightarrow>
        endpoints_exist (snd (add_node g n attrs))
        \<and> endpoints_exist (snd (add_edge g source target attrs))
        \<and> endpoints_exist (snd (query_node g node_id)))"
proof -
  have "endpoints_exist GraphService"
    by (simp add: GraphService_def nx_Graph_def endpoints_exist_def)
  moreover have "endpoints_exist (snd (add_node g n attrs))" if "endpoints_exist g"
    using add_node_state[of g n attrs] that endpoints_exist_nx_add_node[OF that, of n attrs]
    by auto
  moreover have "endpoints_exist (snd (add_edge g source target attrs))" if "endpoints_exist g"
    using add_edge_state[of g source target attrs] that
      endpoints_exist_nx_add_edge[OF that, of source target attrs]
    by auto
  ultimately show ?thesis by (simp add: query_node_state)
qed

theorem C3_endpoints_exist_witness:
  "add_edge GraphService ''a'' ''b'' []
     = (Inr (), \<lparr> node = [(''a'', []), (''b'', [])],
                  adj = [(''a'', [(''b'', [])]), (''b'', [(''a'', [])])] \<rparr>)
   \<and> endpoints_exist (snd (add_edge GraphService ''a'' ''b'' []))"
proof -
  have "add_edge GraphService ''a'' ''b'' []
     = (Inr (), \<lparr> node = [(''a'', []), (''b'', [])],
                  adj = [(''a'', [(''b'', [])]), (''b'', [(''a'', [])])] \<rparr>)"
    by (simp add: add_edge_Nil nx_add_edge_def nx_ensure_node_def GraphService_def nx_Graph_def Let_def)
  moreover have "endpoints_exist (snd (add_edge GraphService ''a'' ''b'' []))"
    using C3_endpoints_exist[of GraphService "''a''" "[]" "''a''" "''b''" PNone] by blast
  ultimately show ?thesis by blast
qed

text \<open>
  C4. For every string message, \<open>process_message\<close> returns the message behind the fixed
  tag \<open>Processed: \<close> (a value, so it succeeds, and a function of the message alone, so it
  is deterministic); the chat handler leaves the graph as it was; and the body
  \<open>{"message": "hi"}\<close> is answered with status 200 and \<open>{"response": "Processed: hi"}\<close>.
\<close>

theorem C4_process_message:
  "process_message py_str (PStr m) = ''Processed: '' @ m
   \<and> snd (chat py_str g payload) = g
   \<and> chat py_str g (PDict [(''message'', PStr ''hi'')])
       = (Inr (PDict [(''response'', PStr ''Processed: hi'')], 200), g)"
  by (simp add: process_message_def chat_def split: sum.splits)

text \<open>
  C10. \<open>query_node\<close> and the handlers of \<open>/chat\<close> and \<open>/document/analyze\<close> never modify
  the graph: for every input, whether they answer or raise, the graph after the call is
  the graph before it.
\<close>

theorem C10_frame:
  "snd (query_node g node_id) = g
   \<and> snd (chat py_str g payload) = g
   \<and> snd (document_analyze g payload) = g"
  by (simp add: query_node_state chat_def document_analyze_def split: sum.splits)

text \<open>
  C5, as stated, fails: a body that is not a JSON object (here the array \<open>[]\<close>) has no
  \<open>node\<close> field, and the handler raises AttributeError instead of answering 400; and
  the body \<open>{"node": 0}\<close>, whose field is neither missing nor empty, is answered with 400.
\<close>

theorem C5_counterexample:
  "graph_query GraphService (PList []) = (Inl AttributeError, GraphService)
   \<and> graph_query GraphService (PDict [(''node'', PInt 0)])
       = (Inr (PDict [(''error'', PStr (CHR 0x27 # ''node'' @ CHR 0x27 # '' is required''))], 400),
          GraphService)"
  by (simp add: graph_query_def)

text \<open>
  C5, amended. For every request body that is a JSON object: if the \<open>node\<close> field is
  missing or is false in Python's truth test (null, false, zero, the empty string, array
  or object), the handler answers 400 with \<open>{"error": "'node' is required"}\<close>; otherwise
  it calls \<open>query_node\<close> and answers 200 with the very result of \<open>query_node\<close>, and lets
  an exception of \<open>query_node\<close> escape.
\<close>

theorem C5_graph_query:
  "(\<not> truthy (case map_of d ''node'' of None \<Rightarrow> PNone | Some v \<Rightarrow> v) \<longrightarrow>
      graph_query g (PDict d)
        = (Inr (PDict [(''error'', PStr (CHR 0x27 # ''node'' @ CHR 0x27 # '' is required''))], 400), g))
   \<and> (\<forall>v. map_of d ''node'' = Some v \<and> truthy v \<longrightarrow>
         (\<forall>r. fst (query_node g v) = Inr r \<longrightarrow> graph_query g (PDict d) = (Inr (r, 200), g))
         \<and> (\<forall>e. fst (query_node g v) = Inl e \<longrightarrow> graph_query g (PDict d) = (Inl e, g)))"
proof -
  have st: "query_node g v = (x, g') \<Longrightarrow> g' = g" for v x g'
    using query_node_state[of g v] by simp
  show ?thesis
    by (auto simp: graph_query_def split: option.splits sum.splits prod.splits dest: st)
qed

theorem C5_graph_query_witness:
  "graph_query \<lparr> node = [(''a'', [])], adj = [(''a'', [])] \<rparr> (PDict [])
     = (Inr (PDict [(''error'', PStr (CHR 0x27 # ''node'' @ CHR 0x27 # '' is required''))], 400),
        \<lparr> node = [(''a'', [])], adj = [(''a'', [])] \<rparr>)
   \<and> graph_query \<lparr> node = [(''a'', [])], adj = [(''a'', [])] \<rparr> (PDict [(''node'', PStr ''a'')])
     = (Inr (PDict [(''exists'', PBool True), (''data'', PDict []), (''edges'', PList [])], 200),
        \<lparr> node = [(''a'', [])], adj = [(''a'', [])] \<rparr>)"
proof -
  let ?g = "\<lparr> node = [(''a'', [])], adj = [(''a'', [])] \<rparr>"
  have q: "fst (query_node ?g (PStr ''a''))
      = Inr (PDict [(''exists'', PBool True), (''data'', PDict []), (''edges'', PList [])])"
    by (simp add: query_node_def)
  have t: "map_of [(''node'', PStr ''a'')] ''node'' = Some (PStr ''a'') \<and> truthy (PStr ''a'')"
    by simp
  have f: "\<not> truthy (case map_of [] ''node'' of None \<Rightarrow> PNone | Some v \<Rightarrow> v)" by simp
  show ?thesis
    using C5_graph_query[of "[]" ?g] C5_graph_query[of "[(''node'', PStr ''a'')]" ?g] q t f
    by blast
qed

text \<open>
  C6, as stated, fails: the body \<open>{"content": 5}\<close> makes the handler raise TypeError,
  since a number can neither be sliced nor measured.
\<close>

theorem C6_counterexample:
  "document_analyze GraphService (PDict [(''content'', PInt 5)]) = (Inl TypeError, GraphService)"
  by (simp add: document_analyze_def)

text \<open>
  C6, amended. For every request body that is a JSON object whose \<open>content\<close> field is
  absent or a string, the handler answers 200 with \<open>summary\<close> the first 100 characters of
  the content (the empty string when absent) and \<open>length\<close> the length of all of it; a
  content of 250 characters gives a summary of 100 and the length 250.
\<close>

theorem C6_document_analyze:
  "map_of d ''content'' = None \<and> s = [] \<or> map_of d ''content'' = Some (PStr s) \<Longrightarrow>
     document_analyze g (PDict d)
       = (Inr (PDict [(''summary'', PStr (take 100 s)), (''length'', PInt (int (length s)))], 200), g)
     \<and> length (take 100 s) = min 100 (length s)"
  by (auto simp: document_analyze_def)

theorem C6_document_analyze_witness:
  "document_analyze GraphService (PDict [(''content'', PStr (replicate 250 CHR ''x''))])
     = (Inr (PDict [(''summary'', PStr (replicate 100 CHR ''x'')), (''length'', PInt 250)], 200),
        GraphService)
   \<and> length (replicate 100 CHR ''x'') = 100"
proof -
  have h: "map_of [(''content'', PStr (replicate 250 CHR ''x''))] ''content'' = None
        \<and> replicate 250 CHR ''x'' = []
      \<or> map_of [(''content'', PStr (replicate 250 CHR ''x''))] ''content''
          = Some (PStr (replicate 250 CHR ''x''))"
    by simp
  have t: "take 100 (replicate 250 CHR ''x'') = replicate 100 CHR ''x''" by simp
  show ?thesis
    using C6_document_analyze[OF h, of GraphService] unfolding t by simp
qed

text \<open>
  C7, as stated, fails: the attributes are keyword arguments of \<open>add_node\<close>, and on
  the existing node \<open>a\<close> the call with an attribute named \<open>node_id\<close> raises TypeError;
  the attribute mapping of \<open>a\<close> is not updated, it is empty before and after.
\<close>

theorem C7_counterexample:
  "add_node GraphService ''a'' [] = (Inr (), \<lparr> node = [(''a'', [])], adj = [(''a'', [])] \<rparr>)
   \<and> add_node \<lparr> node = [(''a'', [])], adj = [(''a'', [])] \<rparr> ''a'' [(''node_id'', PInt 1)]
       = (Inl TypeError, \<lparr> node = [(''a'', [])], adj = [(''a'', [])] \<rparr>)"
  by (simp add: add_node_def kwargs_clash_def nx_add_node_def GraphService_def nx_Graph_def)

text \<open>
  C7, amended. In every consistent graph, adding a node with no attributes twice
  succeeds both times, the second call changes nothing, and the graph then has exactly
  one node for the identifier. Adding a node that exists, with attributes none of which
  is named like a parameter of the method or of the library's (\<open>self\<close>, \<open>node_id\<close>,
  \<open>node_for_adding\<close>), succeeds, leaves the list of nodes, the attributes of every other
  node and all edges as they were, and replaces the node's attributes by the old ones
  updated with the new: an attribute that is given has the value given (the last, were
  it given twice), one that is not given keeps the value it had. With an attribute of
  one of those names the call raises TypeError and leaves the graph as it was.
\<close>

theorem C7_add_node_idempotent:
  assumes c: "consistent g"
  shows "(\<exists>g1. add_node g node_id [] = (Inr (), g1) \<and> add_node g1 node_id [] = (Inr (), g1)
            \<and> length (filter (\<lambda>k. k = node_id) (map fst (node g1))) = 1)
    \<and> (\<forall>d. map_of (node g) node_id = Some d
            \<and> fst ` set attrs \<inter> {''self'', ''node_id'', ''node_for_adding''} = {} \<longrightarrow>
          (\<exists>g'. add_node g node_id attrs = (Inr (), g')
             \<and> map fst (node g') = map fst (node g)
             \<and> map_of (node g') node_id = Some (dict_update d attrs)
             \<and> map_of (dict_update d attrs) = map_of d ++ map_of (rev attrs)
             \<and> (\<forall>n. n \<noteq> node_id \<longrightarrow> map_of (node g') n = map_of (node g) n)
             \<and> adj g' = adj g))
    \<and> (fst ` set attrs \<inter> {''self'', ''node_id'', ''node_for_adding''} \<noteq> {} \<longrightarrow>
          add_node g node_id attrs = (Inl TypeError, g))"
proof (intro conjI allI impI)
  define g1 where "g1 = nx_add_node g node_id []"
  have r1: "add_node g node_id [] = (Inr (), g1)" by (simp add: add_node_Nil g1_def)
  have r2: "add_node g1 node_id [] = (Inr (), g1)"
    by (simp add: add_node_Nil g1_def nx_add_node_twice)
  have "consistent g1" unfolding g1_def by (rule consistent_nx_add_node[OF c])
  then have "distinct (map fst (node g1))" by (simp add: consistent_distinct)
  moreover have "node_id \<in> set (map fst (node g1))"
    using node_keys_nx_add_node[of g node_id "[]"] by (simp add: g1_def)
  ultimately have "length (filter (\<lambda>k. k = node_id) (map fst (node g1))) = 1"
    by (rule distinct_count_one)
  with r1 r2
  show "\<exists>g1. add_node g node_id [] = (Inr (), g1) \<and> add_node g1 node_id [] = (Inr (), g1)
            \<and> length (filter (\<lambda>k. k = node_id) (map fst (node g1))) = 1"
    by (intro exI[of _ g1] conjI)
next
  fix d
  assume "map_of (node g) node_id = Some d
      \<and> fst ` set attrs \<inter> {''self'', ''node_id'', ''node_for_adding''} = {}"
  then have d: "map_of (node g) node_id = Some d"
    and k: "fst ` set attrs \<inter> {''self'', ''node_id'', ''node_for_adding''} = {}"
    by (rule conjunct1, rule conjunct2)
  define g' where "g' = g\<lparr> node := AList.update node_id (dict_update d attrs) (node g) \<rparr>"
  have b: "nx_add_node g node_id attrs = g'" by (simp add: nx_add_node_def d g'_def)
  show "\<exists>g'. add_node g node_id attrs = (Inr (), g')
             \<and> map fst (node g') = map fst (node g)
             \<and> map_of (node g') node_id = Some (dict_update d attrs)
             \<and> map_of (dict_update d attrs) = map_of d ++ map_of (rev attrs)
             \<and> (\<forall>n. n \<noteq> node_id \<longrightarrow> map_of (node g') n = map_of (node g) n)
             \<and> adj g' = adj g"
  proof (intro exI[of _ g'] conjI allI impI)
    show "add_node g node_id attrs = (Inr (), g')"
      unfolding add_node_cases k b by (rule if_P) (rule refl)
    show "map fst (node g') = map fst (node g)"
      using update_keys_present[OF d] by (simp add: g'_def)
    show "map_of (node g') node_id = Some (dict_update d attrs)"
      by (simp add: g'_def update_conv')
    show "map_of (dict_update d attrs) = map_of d ++ map_of (rev attrs)"
      by (rule map_of_dict_update)
    show "map_of (node g') n = map_of (node g) n" if "n \<noteq> node_id" for n
      using that by (simp add: g'_def update_conv')
    show "adj g' = adj g" by (simp add: g'_def)
  qed
next
  assume "fst ` set attrs \<inter> {''self'', ''node_id'', ''node_for_adding''} \<noteq> {}"
  then show "add_node g node_id attrs = (Inl TypeError, g)"
    unfolding add_node_cases by (rule if_not_P)
qed

theorem C7_add_node_idempotent_witness:
  "consistent \<lparr> node = [(''a'', [(''x'', PInt 1), (''y'', PInt 5)])], adj = [(''a'', [])] \<rparr>
   \<and> (\<exists>g1. add_node \<lparr> node = [(''a'', [(''x'', PInt 1), (''y'', PInt 5)])], adj = [(''a'', [])] \<rparr>
               ''a'' [] = (Inr (), g1)
          \<and> add_node g1 ''a'' [] = (Inr (), g1)
          \<and> length (filter (\<lambda>k. k = ''a'') (map fst (node g1))) = 1)
   \<and> (\<exists>g'. add_node \<lparr> node = [(''a'', [(''x'', PInt 1), (''y'', PInt 5)])], adj = [(''a'', [])] \<rparr>
               ''a'' [(''x'', PInt 2), (''z'', PInt 3)] = (Inr (), g')
          \<and> map fst (node g') = [''a'']
          \<and> map_of (node g') ''a'' = Some [(''x'', PInt 2), (''y'', PInt 5), (''z'', PInt 3)]
          \<and> adj g' = [(''a'', [])])
   \<and> add_node \<lparr> node = [(''a'', [(''x'', PInt 1), (''y'', PInt 5)])], adj = [(''a'', [])] \<rparr>
         ''a'' [(''self'', PInt 1)]
       = (Inl TypeError, \<lparr> node = [(''a'', [(''x'', PInt 1), (''y'', PInt 5)])], adj = [(''a'', [])] \<rparr>)"
proof -
  let ?g = "\<lparr> node = [(''a'', [(''x'', PInt 1), (''y'', PInt 5)])], adj = [(''a'', [])] \<rparr>"
  have h: "consistent ?g" by (simp add: consistent_def adj_at_def)
  have m: "map_of (node ?g) ''a'' = Some [(''x'', PInt 1), (''y'', PInt 5)]" by simp
  have k: "fst ` set [(''x'', PInt 2), (''z'', PInt 3)] \<inter> {''self'', ''node_id'', ''node_for_adding''} = {}"
    by simp
  have e: "fst ` set [(''self'', PInt 1)] \<inter> {''self'', ''node_id'', ''node_for_adding''} \<noteq> {}"
    by simp
  have u: "dict_update [(''x'', PInt 1), (''y'', PInt 5)] [(''x'', PInt 2), (''z'', PInt 3)]
      = [(''x'', PInt 2), (''y'', PInt 5), (''z'', PInt 3)]"
    by (simp add: dict_update_def)
  have n: "map fst (node ?g) = [''a'']" and a: "adj ?g = [(''a'', [])]" by simp_all
  note T = C7_add_node_idempotent[OF h, of "''a''" "[(''x'', PInt 2), (''z'', PInt 3)]"]
  have p1: "\<exists>g1. add_node ?g ''a'' [] = (Inr (), g1) \<and> add_node g1 ''a'' [] = (Inr (), g1)
            \<and> length (filter (\<lambda>k. k = ''a'') (map fst (node g1))) = 1"
    by (rule T[THEN conjunct1])
  from T[THEN conjunct2, THEN conjunct1, THEN spec, THEN mp, OF conjI[OF m k]]
  obtain g' where "add_node ?g ''a'' [(''x'', PInt 2), (''z'', PInt 3)] = (Inr (), g')"
    and "map fst (node g') = map fst (node ?g)"
    and "map_of (node g') ''a''
           = Some (dict_update [(''x'', PInt 1), (''y'', PInt 5)] [(''x'', PInt 2), (''z'', PInt 3)])"
    and "adj g' = adj ?g"
    by (elim exE conjE)
  then have p2: "\<exists>g'. add_node ?g ''a'' [(''x'', PInt 2), (''z'', PInt 3)] = (Inr (), g')
          \<and> map fst (node g') = [''a'']
          \<and> map_of (node g') ''a'' = Some [(''x'', PInt 2), (''y'', PInt 5), (''z'', PInt 3)]
          \<and> adj g' = [(''a'', [])]"
    unfolding u n a by (intro exI[of _ g'] conjI)
  have p3: "add_node ?g ''a'' [(''self'', PInt 1)] = (Inl TypeError, ?g)"
    by (rule C7_add_node_idempotent[OF h, of "''a''" "[(''self'', PInt 1)]",
          THEN conjunct2, THEN conjunct2, THEN mp, OF e])
  from h p1 p2 p3 show ?thesis by (intro conjI)
qed

text \<open>
  C8, as stated, fails: the attributes are keyword arguments of \<open>add_edge\<close>, and on the
  pair \<open>a\<close>, \<open>b\<close>, which has an edge with the attribute \<open>w = 1\<close>, the call with an attribute
  named \<open>target\<close> raises TypeError; the attributes of the edge are not overwritten, they
  are the same before and after.
\<close>

theorem C8_counterexample:
  "add_edge GraphService ''a'' ''b'' [(''w'', PInt 1)]
     = (Inr (), \<lparr> node = [(''a'', []), (''b'', [])],
                  adj = [(''a'', [(''b'', [(''w'', PInt 1)])]), (''b'', [(''a'', [(''w'', PInt 1)])])] \<rparr>)
   \<and> add_edge \<lparr> node = [(''a'', []), (''b'', [])],
                 adj = [(''a'', [(''b'', [(''w'', PInt 1)])]), (''b'', [(''a'', [(''w'', PInt 1)])])] \<rparr>
        ''a'' ''b'' [(''target'', PInt 2)]
     = (Inl TypeError, \<lparr> node = [(''a'', []), (''b'', [])],
                  adj = [(''a'', [(''b'', [(''w'', PInt 1)])]), (''b'', [(''a'', [(''w'', PInt 1)])])] \<rparr>)"
  by (simp add: add_edge_def kwargs_clash_def nx_add_edge_def nx_ensure_node_def dict_update_def
      GraphService_def nx_Graph_def Let_def)

text \<open>
  C8, amended. In every consistent graph no neighbour is listed twice, so there are no
  parallel edges. Adding an edge between a pair that has one, in either order, with
  attributes none of which is named like a parameter of the method or of the library's
  (\<open>self\<close>, \<open>source\<close>, \<open>target\<close>, \<open>u_of_edge\<close>, \<open>v_of_edge\<close>), succeeds, adds no node and
  no neighbour entry (the adjacency is the same), leaves exactly one entry for the pair
  in each direction, and stores there the old attributes updated with the new: an
  attribute that is given has the value given (the last, were it given twice), one that
  is not given keeps the value it had; the graph is consistent again. With an attribute
  of one of those names the call raises TypeError and leaves the graph as it was.
\<close>

theorem C8_no_parallel_edges:
  assumes c: "consistent g"
    and e: "adj_at g source target = Some d \<or> adj_at g target source = Some d"
  shows "(fst ` set attrs \<inter> {''self'', ''source'', ''target'', ''u_of_edge'', ''v_of_edge''} = {} \<longrightarrow>
      (\<exists>g'. add_edge g source target attrs = (Inr (), g')
         \<and> node g' = node g \<and> adjacency g' = adjacency g
         \<and> adj_at g' source target = Some (dict_update d attrs)
         \<and> adj_at g' target source = Some (dict_update d attrs)
         \<and> map_of (dict_update d attrs) = map_of d ++ map_of (rev attrs)
         \<and> (\<forall>nbrs. map_of (adj g') source = Some nbrs \<longrightarrow>
                length (filter (\<lambda>k. k = target) (map fst nbrs)) = 1)
         \<and> (\<forall>nbrs. map_of (adj g') target = Some nbrs \<longrightarrow>
                length (filter (\<lambda>k. k = source) (map fst nbrs)) = 1)
         \<and> consistent g'))
    \<and> (fst ` set attrs \<inter> {''self'', ''source'', ''target'', ''u_of_edge'', ''v_of_edge''} \<noteq> {} \<longrightarrow>
          add_edge g source target attrs = (Inl TypeError, g))"
proof (intro conjI impI)
  assume k: "fst ` set attrs \<inter> {''self'', ''source'', ''target'', ''u_of_edge'', ''v_of_edge''} = {}"
  have bound: "add_edge g source target attrs = nx_add_edge g source target attrs"
    unfolding add_edge_cases k by (rule if_P) (rule refl)
  from e have st: "adj_at g source target = Some d"
    using consistent_adj_at_sym[OF c] by blast
  from nx_add_edge_consistent[OF c, of source target attrs]
  obtain g' where res: "nx_add_edge g source target attrs = (Inr (), g')"
    and at: "\<And>x y. adj_at g' x y =
            (if (x = source \<and> y = target) \<or> (x = target \<and> y = source)
             then Some (dict_update d attrs) else adj_at g x y)"
    and same: "node g' = node g" "adjacency g' = adjacency g"
    and c': "consistent g'"
    unfolding st by auto
  have a1: "adj_at g' source target = Some (dict_update d attrs)"
    unfolding at by (rule if_P) blast
  have a2: "adj_at g' target source = Some (dict_update d attrs)"
    unfolding at by (rule if_P) blast
  have one: "length (filter (\<lambda>k. k = y) (map fst nbrs)) = 1"
    if "adj_at g' x y = Some dd" and nb: "map_of (adj g') x = Some nbrs" for x y dd nbrs
  proof -
    from that have "map_of nbrs y = Some dd" by (simp add: adj_at_def)
    then have "(y, dd) \<in> set nbrs" by (rule map_of_SomeD)
    then have "y \<in> set (map fst nbrs)" by force
    moreover have "distinct (map fst nbrs)"
      by (rule consistent_nbrs_distinct[OF c' map_of_SomeD[OF nb]])
    ultimately show ?thesis by (rule distinct_count_one[rotated])
  qed
  show "\<exists>g'. add_edge g source target attrs = (Inr (), g')
         \<and> node g' = node g \<and> adjacency g' = adjacency g
         \<and> adj_at g' source target = Some (dict_update d attrs)
         \<and> adj_at g' target source = Some (dict_update d attrs)
         \<and> map_of (dict_update d attrs) = map_of d ++ map_of (rev attrs)
         \<and> (\<forall>nbrs. map_of (adj g') source = Some nbrs \<longrightarrow>
                length (filter (\<lambda>k. k = target) (map fst nbrs)) = 1)
         \<and> (\<forall>nbrs. map_of (adj g') target = Some nbrs \<longrightarrow>
                length (filter (\<lambda>k. k = source) (map fst nbrs)) = 1)
         \<and> consistent g'"
  proof (intro exI[of _ g'] conjI allI impI)
    show "add_edge g source target attrs = (Inr (), g')" unfolding bound by (rule res)
    show "node g' = node g" and "adjacency g' = adjacency g" by (rule same)+
    show "adj_at g' source target = Some (dict_update d attrs)" by (rule a1)
    show "adj_at g' target source = Some (dict_update d attrs)" by (rule a2)
    show "map_of (dict_update d attrs) = map_of d ++ map_of (rev attrs)"
      by (rule map_of_dict_update)
    show "length (filter (\<lambda>k. k = target) (map fst nbrs)) = 1"
      if "map_of (adj g') source = Some nbrs" for nbrs by (rule one[OF a1 that])
    show "length (filter (\<lambda>k. k = source) (map fst nbrs)) = 1"
      if "map_of (adj g') target = Some nbrs" for nbrs by (rule one[OF a2 that])
    show "consistent g'" by (rule c')
  qed
next
  assume "fst ` set attrs \<inter> {''self'', ''source'', ''target'', ''u_of_edge'', ''v_of_edge''} \<noteq> {}"
  then show "add_edge g source target attrs = (Inl TypeError, g)"
    unfolding add_edge_cases by (rule if_not_P)
qed

theorem C8_no_parallel_edges_witness:
  "consistent \<lparr> node = [(''a'', []), (''b'', [])],
                adj = [(''a'', [(''b'', [(''w'', PInt 1), (''c'', PInt 5)])]),
                       (''b'', [(''a'', [(''w'', PInt 1), (''c'', PInt 5)])])] \<rparr>
   \<and> (\<exists>g'. add_edge \<lparr> node = [(''a'', []), (''b'', [])],
                 adj = [(''a'', [(''b'', [(''w'', PInt 1), (''c'', PInt 5)])]),
                        (''b'', [(''a'', [(''w'', PInt 1), (''c'', PInt 5)])])] \<rparr>
        ''b'' ''a'' [(''w'', PInt 2)] = (Inr (), g')
        \<and> node g' = [(''a'', []), (''b'', [])]
        \<and> adjacency g' = [(''a'', [''b'']), (''b'', [''a''])]
        \<and> adj_at g' ''a'' ''b'' = Some [(''w'', PInt 2), (''c'', PInt 5)]
        \<and> adj_at g' ''b'' ''a'' = Some [(''w'', PInt 2), (''c'', PInt 5)])
   \<and> add_edge \<lparr> node = [(''a'', []), (''b'', [])],
                 adj = [(''a'', [(''b'', [(''w'', PInt 1), (''c'', PInt 5)])]),
                        (''b'', [(''a'', [(''w'', PInt 1), (''c'', PInt 5)])])] \<rparr>
        ''b'' ''a'' [(''u_of_edge'', PInt 2)]
      = (Inl TypeError, \<lparr> node = [(''a'', []), (''b'', [])],
                 adj = [(''a'', [(''b'', [(''w'', PInt 1), (''c'', PInt 5)])]),
                        (''b'', [(''a'', [(''w'', PInt 1), (''c'', PInt 5)])])] \<rparr>)"
proof -
  let ?g = "\<lparr> node = [(''a'', []), (''b'', [])],
               adj = [(''a'', [(''b'', [(''w'', PInt 1), (''c'', PInt 5)])]),
                      (''b'', [(''a'', [(''w'', PInt 1), (''c'', PInt 5)])])] \<rparr>"
  have h1: "consistent ?g" by (simp add: consistent_def adj_at_def)
  have h2: "adj_at ?g ''b'' ''a'' = Some [(''w'', PInt 1), (''c'', PInt 5)]
      \<or> adj_at ?g ''a'' ''b'' = Some [(''w'', PInt 1), (''c'', PInt 5)]"
    by (simp add: adj_at_def)
  have k: "fst ` set [(''w'', PInt 2)] \<inter> {''self'', ''source'', ''target'', ''u_of_edge'', ''v_of_edge''} = {}"
    by simp
  have e: "fst ` set [(''u_of_edge'', PInt 2)]
      \<inter> {''self'', ''source'', ''target'', ''u_of_edge'', ''v_of_edge''} \<noteq> {}"
    by simp
  have u: "dict_update [(''w'', PInt 1), (''c'', PInt 5)] [(''w'', PInt 2)]
      = [(''w'', PInt 2), (''c'', PInt 5)]"
    by (simp add: dict_update_def)
  have n: "node ?g = [(''a'', []), (''b'', [])]" by simp
  have a: "adjacency ?g = [(''a'', [''b'']), (''b'', [''a''])]" by (simp add: adjacency_def)
  from C8_no_parallel_edges[OF h1 h2, of "[(''w'', PInt 2)]", THEN conjunct1, THEN mp, OF k]
  obtain g' where "add_edge ?g ''b'' ''a'' [(''w'', PInt 2)] = (Inr (), g')"
    and "node g' = node ?g" and "adjacency g' = adjacency ?g"
    and "adj_at g' ''b'' ''a''
           = Some (dict_update [(''w'', PInt 1), (''c'', PInt 5)] [(''w'', PInt 2)])"
    and "adj_at g' ''a'' ''b''
           = Some (dict_update [(''w'', PInt 1), (''c'', PInt 5)] [(''w'', PInt 2)])"
    by (elim exE conjE)
  then have p1: "\<exists>g'. add_edge ?g ''b'' ''a'' [(''w'', PInt 2)] = (Inr (), g')
        \<and> node g' = [(''a'', []), (''b'', [])]
        \<and> adjacency g' = [(''a'', [''b'']), (''b'', [''a''])]
        \<and> adj_at g' ''a'' ''b'' = Some [(''w'', PInt 2), (''c'', PInt 5)]
        \<and> adj_at g' ''b'' ''a'' = Some [(''w'', PInt 2), (''c'', PInt 5)]"
    unfolding u n a by (intro exI[of _ g'] conjI)
  have p2: "add_edge ?g ''b'' ''a'' [(''u_of_edge'', PInt 2)] = (Inl TypeError, ?g)"
    by (rule C8_no_parallel_edges[OF h1 h2, of "[(''u_of_edge'', PInt 2)]",
          THEN conjunct2, THEN mp, OF e])
  from h1 p1 p2 show ?thesis by (intro conjI)
qed

end
